theory Spec2Isabelle
  imports Complex_Main "HOL-Library.Sublist"
begin

section \<open>Python values, rows and strings\<close>

text \<open>
  The ranking engine receives rows typed \<^verbatim>\<open>Dict[str, Any]\<close>: a field may hold any
  Python value. The model keeps the kinds of value a graph query can return. A Python
  \<^verbatim>\<open>float\<close> is modelled by the real number it denotes: every number the ranker
  computes is a small rational, and the rounding of binary floating point is outside the
  model.

  A Python \<^verbatim>\<open>str\<close> is a sequence of code points. It is modelled by \<^typ>\<open>string\<close>, each
  \<^typ>\<open>char\<close> read as one code point below 256 (Latin-1); text with other code points is
  outside the model.
\<close>

datatype pyval =
    PyNone
  | PyBool bool
  | PyInt int
  | PyFloat real
  | PyStr string
  | PyList "pyval list"

datatype error = AttributeError

type_synonym row = "string \<rightharpoonup> pyval"

type_synonym entities = "string \<rightharpoonup> string list"

text \<open>Python truth value testing, as used by \<^verbatim>\<open>or\<close>.\<close>

fun truthy :: "pyval \<Rightarrow> bool" where
  "truthy PyNone = False"
| "truthy (PyBool b) = b"
| "truthy (PyInt i) = (i \<noteq> 0)"
| "truthy (PyFloat x) = (x \<noteq> 0)"
| "truthy (PyStr s) = (s \<noteq> [])"
| "truthy (PyList vs) = (vs \<noteq> [])"

text \<open>\<^verbatim>\<open>a or b\<close>: the left operand when it is truthy, else the right one.\<close>

definition py_or :: "pyval \<Rightarrow> pyval \<Rightarrow> pyval" where
  "py_or a b = (if truthy a then a else b)"

text \<open>\<^verbatim>\<open>r.get(k)\<close>: the value stored under the key, \<^verbatim>\<open>None\<close> when the key is absent.\<close>

definition dict_get :: "row \<Rightarrow> string \<Rightarrow> pyval" where
  "dict_get r k = (case r k of None \<Rightarrow> PyNone | Some v \<Rightarrow> v)"

text \<open>\<^verbatim>\<open>entities.get(k, [])\<close>.\<close>

definition entities_get :: "entities \<Rightarrow> string \<Rightarrow> string list" where
  "entities_get e k = (case e k of None \<Rightarrow> [] | Some xs \<Rightarrow> xs)"

subsection \<open>Characters\<close>

text \<open>\<^verbatim>\<open>str.lower\<close> on one code point below 256: A-Z and the upper-case Latin-1 letters.\<close>

definition lower_char :: "char \<Rightarrow> char" where
  "lower_char c =
     (let n = (of_char c :: nat)
      in if (65 \<le> n \<and> n \<le> 90) \<or> (192 \<le> n \<and> n \<le> 222 \<and> n \<noteq> 215)
         then char_of (n + 32) else c)"

definition lower :: "string \<Rightarrow> string" where
  "lower s = map lower_char s"

text \<open>Whitespace as \<^verbatim>\<open>str.strip\<close> and the pattern \<^verbatim>\<open>\s\<close> see it, below 256.\<close>

definition is_space :: "char \<Rightarrow> bool" where
  "is_space c =
     (let n = (of_char c :: nat)
      in (9 \<le> n \<and> n \<le> 13) \<or> (28 \<le> n \<and> n \<le> 32) \<or> n = 133 \<or> n = 160)"

text \<open>The character classes \<^verbatim>\<open>[a-zA-Z]\<close> and \<^verbatim>\<open>[a-zA-Z\-]\<close> of the token pattern.\<close>

definition is_letter :: "char \<Rightarrow> bool" where
  "is_letter c =
     (let n = (of_char c :: nat) in (97 \<le> n \<and> n \<le> 122) \<or> (65 \<le> n \<and> n \<le> 90))"

definition is_token_char :: "char \<Rightarrow> bool" where
  "is_token_char c = (is_letter c \<or> c = CHR ''-'')"

text \<open>\<^verbatim>\<open>(text or "").lower()\<close>: only a string has the method \<^verbatim>\<open>lower\<close>.\<close>

definition py_lower :: "pyval \<Rightarrow> error + string" where
  "py_lower v = (case v of PyStr s \<Rightarrow> Inr (lower s) | _ \<Rightarrow> Inl AttributeError)"

definition or_empty_lower :: "pyval \<Rightarrow> error + string" where
  "or_empty_lower text = py_lower (py_or text (PyStr []))"

section \<open>Ranking engine (ranker.py)\<close>

subsection \<open>The scoring target of a row\<close>

text \<open>\<^verbatim>\<open>text = r.get("text") or r.get("item") or r.get("model") or ""\<close>\<close>

definition text_of :: "row \<Rightarrow> pyval" where
  "text_of r =
     py_or (dict_get r ''text'')
       (py_or (dict_get r ''item'')
         (py_or (dict_get r ''model'') (PyStr [])))"

text \<open>
  The precedence in the words of the specification: the field \<^verbatim>\<open>text\<close> if present, else
  \<^verbatim>\<open>item\<close>, else \<^verbatim>\<open>model\<close>, else the empty string, presence deciding.
\<close>

definition text_by_presence :: "row \<Rightarrow> pyval" where
  "text_by_presence r =
     (case r ''text'' of Some v \<Rightarrow> v | None \<Rightarrow>
      (case r ''item'' of Some v \<Rightarrow> v | None \<Rightarrow>
       (case r ''model'' of Some v \<Rightarrow> v | None \<Rightarrow> PyStr [])))"

text \<open>The first of the three fields whose value is truthy.\<close>

definition first_truthy :: "row \<Rightarrow> string list \<Rightarrow> pyval" where
  "first_truthy r ks =
     (case find (\<lambda>k. truthy (dict_get r k)) ks of
        None \<Rightarrow> PyStr [] | Some k \<Rightarrow> dict_get r k)"

subsection \<open>Tokenizer\<close>

text \<open>
  \<^verbatim>\<open>re.findall(r"[a-zA-Z][a-zA-Z\-]{2,}", s)\<close>: the scan goes left to right. At a
  position the pattern matches when a letter is followed by at least two characters of
  the class; the greedy quantifier then takes the whole run of class characters that
  follows, and the scan resumes behind the match. Where the pattern does not match, the
  scan moves on by one character.
\<close>

function findall :: "string \<Rightarrow> string list" where
  "findall [] = []"
| "findall (c # cs) =
     (if is_letter c \<and> 2 \<le> length (takeWhile is_token_char cs)
      then (c # takeWhile is_token_char cs) # findall (dropWhile is_token_char cs)
      else findall cs)"
  by pat_completeness auto
termination
  by (relation "measure length") (auto simp: less_Suc_eq_le length_dropWhile_le)

text \<open>\<^verbatim>\<open>_tokenize(text)\<close>\<close>

definition tokenize :: "pyval \<Rightarrow> error + string list" where
  "tokenize text =
     (case or_empty_lower text of Inl e \<Rightarrow> Inl e | Inr s \<Rightarrow> Inr (findall s))"

text \<open>
  Tokenization in the words of the specification: the maximal runs of letters and
  hyphens, of length at least 3, of the case-folded text.
\<close>

function runs :: "(char \<Rightarrow> bool) \<Rightarrow> string \<Rightarrow> string list" where
  "runs P [] = []"
| "runs P (c # cs) =
     (if P c then (c # takeWhile P cs) # runs P (dropWhile P cs) else runs P cs)"
  by pat_completeness auto
termination
  by (relation "measure (\<lambda>(P, s). length s)") (auto simp: less_Suc_eq_le length_dropWhile_le)

definition maximal_runs_tokens :: "string \<Rightarrow> string list" where
  "maximal_runs_tokens s = filter (\<lambda>w. 3 \<le> length w) (runs is_token_char (lower s))"

text \<open>What the pattern yields: each run without its leading hyphens.\<close>

definition letter_led_tokens :: "string \<Rightarrow> string list" where
  "letter_led_tokens s =
     filter (\<lambda>w. 3 \<le> length w)
       (map (dropWhile (\<lambda>c. c = CHR ''-'')) (runs is_token_char (lower s)))"

subsection \<open>Lexical overlap\<close>

definition lexical_overlap_score :: "pyval \<Rightarrow> pyval \<Rightarrow> error + real" where
  "lexical_overlap_score question text =
     (case tokenize question of Inl e \<Rightarrow> Inl e | Inr qs \<Rightarrow>
      (case tokenize text of Inl e \<Rightarrow> Inl e | Inr ts \<Rightarrow>
         let q_tokens = set qs; t_tokens = set ts
         in if q_tokens = {} \<or> t_tokens = {} then Inr 0
            else let inter = card (q_tokens \<inter> t_tokens)
                 in Inr (real inter / real (max 1 (card q_tokens)))))"

subsection \<open>Entity boost\<close>

text \<open>One \<^verbatim>\<open>for\<close> loop of \<^verbatim>\<open>entity_match_boost\<close>, the running score threaded through.\<close>

fun boost_loop :: "string \<Rightarrow> string list \<Rightarrow> real \<Rightarrow> real" where
  "boost_loop t [] score = score"
| "boost_loop t (x # xs) score =
     boost_loop t xs (if sublist x t then score + 0.2 else score)"

definition entity_match_boost :: "pyval \<Rightarrow> entities \<Rightarrow> error + real" where
  "entity_match_boost text ents =
     (case or_empty_lower text of Inl e \<Rightarrow> Inl e | Inr t \<Rightarrow>
        let score = boost_loop t (entities_get ents ''algorithms'') 0;
            score = boost_loop t (entities_get ents ''diseases'') score
        in Inr (min score 0.6))"

subsection \<open>Scoring and sorting rows\<close>

definition domain_tags :: "string list" where
  "domain_tags =
     [''Symptoms'', ''RiskFactors'', ''DiagnosticTechniques'', ''CancerTypes'',
      ''Dataset'', ''Results'', ''Conclusion'']"

definition proximity :: "string \<Rightarrow> real" where
  "proximity tag = (if tag \<in> set domain_tags then 0.2 else 0.0)"

text \<open>The body of the loop of \<^verbatim>\<open>score_items\<close> up to the copy: the final score of a row.\<close>

definition final_score :: "string \<Rightarrow> string \<Rightarrow> entities \<Rightarrow> row \<Rightarrow> error + real" where
  "final_score question tag ents r =
     (let text = text_of r in
      case lexical_overlap_score (PyStr question) text of Inl e \<Rightarrow> Inl e | Inr lex_s \<Rightarrow>
      (case entity_match_boost text ents of Inl e \<Rightarrow> Inl e | Inr ent_s \<Rightarrow>
         Inr (0.5 * lex_s + 0.3 * ent_s + 0.2 * proximity tag)))"

text \<open>
  Rows are Python objects, passed by reference. The object store is a list of rows and a
  reference is an index into it. The store is returned with the outcome, also when the
  call raises, so that what the call did to the caller's objects can be stated.
\<close>

type_synonym ref = nat

type_synonym heap = "row list"

text \<open>\<^verbatim>\<open>dict(r)\<close>: a new object with the items of \<open>r\<close>, at the end of the store.\<close>

definition dict_copy :: "heap \<Rightarrow> ref \<Rightarrow> heap \<times> ref" where
  "dict_copy h a = (h @ [h ! a], length h)"

text \<open>\<^verbatim>\<open>d[k] = v\<close>: the object behind the reference is updated in place.\<close>

definition setitem :: "heap \<Rightarrow> ref \<Rightarrow> string \<Rightarrow> pyval \<Rightarrow> heap" where
  "setitem h d k v = h[d := (h ! d)(k \<mapsto> v)]"

text \<open>
  The loop of \<^verbatim>\<open>score_items\<close>: \<open>rows\<close> holds the references still to visit and
  \<open>scored\<close> the list built so far. An exception leaves the loop with the store as it is.
\<close>

fun score_loop ::
  "string \<Rightarrow> string \<Rightarrow> entities \<Rightarrow> ref list \<Rightarrow> heap \<Rightarrow> ref list \<Rightarrow> heap \<times> (error + ref list)"
where
  "score_loop question tag ents [] h scored = (h, Inr scored)"
| "score_loop question tag ents (r # rows) h scored =
     (case final_score question tag ents (h ! r) of
        Inl e \<Rightarrow> (h, Inl e)
      | Inr final \<Rightarrow>
          (case dict_copy h r of (h1, r_scored) \<Rightarrow>
             let h2 = setitem h1 r_scored ''_score'' (PyFloat final);
                 h3 = setitem h2 r_scored ''_tag'' (PyStr tag)
             in score_loop question tag ents rows h3 (scored @ [r_scored])))"

text \<open>
  The sort key \<^verbatim>\<open>x["_score"]\<close>. The key is read from rows that had it stored a few
  lines before, as a float; the other branch is never taken (lemma \<open>row_score_scored_copy\<close>).
\<close>

definition row_score :: "row \<Rightarrow> real" where
  "row_score x = (case x ''_score'' of Some (PyFloat s) \<Rightarrow> s | _ \<Rightarrow> 0)"

definition score_key :: "heap \<Rightarrow> ref \<Rightarrow> real" where
  "score_key h a = row_score (h ! a)"

text \<open>
  \<^verbatim>\<open>scored.sort(key=lambda x: x["_score"], reverse=True)\<close>: Python's \<^verbatim>\<open>list.sort\<close> is
  stable, also with \<^verbatim>\<open>reverse=True\<close>, where elements with equal keys keep their original
  order. It is modelled by the stable insertion sort of the library on the negated key.
\<close>

definition sort_by_score_desc :: "heap \<Rightarrow> ref list \<Rightarrow> ref list" where
  "sort_by_score_desc h scored = sort_key (\<lambda>a. - score_key h a) scored"

definition score_items ::
  "string \<Rightarrow> string \<Rightarrow> ref list \<Rightarrow> entities \<Rightarrow> heap \<Rightarrow> heap \<times> (error + ref list)"
where
  "score_items question tag rows ents h =
     (case score_loop question tag ents rows h [] of
        (h', Inl e) \<Rightarrow> (h', Inl e)
      | (h', Inr scored) \<Rightarrow> (h', Inr (sort_by_score_desc h' scored)))"

text \<open>The rows a list of references denotes in a store.\<close>

definition deref :: "heap \<Rightarrow> ref list \<Rightarrow> row list" where
  "deref h as = map (\<lambda>a. h ! a) as"

text \<open>
  Vocabulary for the statements: a row can be scored when its scoring target is a
  string; \<open>score_of\<close> is the final score of such a row, and \<open>scored_row\<close> is the row
  with the items \<^verbatim>\<open>_score\<close> and \<^verbatim>\<open>_tag\<close> added.
\<close>

definition scorable :: "row \<Rightarrow> bool" where
  "scorable r = (case text_of r of PyStr s \<Rightarrow> True | _ \<Rightarrow> False)"

definition score_of :: "string \<Rightarrow> string \<Rightarrow> entities \<Rightarrow> row \<Rightarrow> real" where
  "score_of question tag ents r =
     (case final_score question tag ents r of Inr final \<Rightarrow> final | Inl e \<Rightarrow> 0)"

definition scored_copy :: "row \<Rightarrow> real \<Rightarrow> string \<Rightarrow> row" where
  "scored_copy r final tag = (r(''_score'' \<mapsto> PyFloat final))(''_tag'' \<mapsto> PyStr tag)"

definition scored_row :: "string \<Rightarrow> string \<Rightarrow> entities \<Rightarrow> row \<Rightarrow> row" where
  "scored_row question tag ents r = scored_copy r (score_of question tag ents r) tag"

text \<open>\<^verbatim>\<open>select_top_n(scored_items, n)\<close> for a natural \<open>n\<close>.\<close>

definition select_top_n :: "'a list \<Rightarrow> nat \<Rightarrow> 'a list" where
  "select_top_n scored_items n = take n scored_items"

text \<open>
  A store to run the ranker on: the rows of scenario C of the specification and a third
  row that ties with the first, with the entities of that scenario.
\<close>

definition example_store :: heap where
  "example_store =
     [[''item'' \<mapsto> PyStr ''cough''],
      [''item'' \<mapsto> PyStr ''svm classification model''],
      [''item'' \<mapsto> PyStr ''fever'']]"

definition example_entities :: entities where
  "example_entities = [''algorithms'' \<mapsto> [''svm''], ''diseases'' \<mapsto> [], ''sections'' \<mapsto> []]"

definition example_aliases :: entities where
  "example_aliases =
     [''algorithms'' \<mapsto> [''svm'', ''ann'', ''rf'', ''mlr''], ''diseases'' \<mapsto> [''lung cancer'']]"

definition example_question :: string where
  "example_question = ''What are the symptoms of lung cancer?''"

section \<open>Intent classifier (intent.py)\<close>

text \<open>The dictionary \<^verbatim>\<open>INTENTS\<close>, in its insertion order, which is the order of iteration.\<close>

definition INTENTS :: "(string \<times> string list) list" where
  "INTENTS =
     [(''symptoms'', [''symptom'', ''symptoms'']),
      (''risk_factors'', [''risk'', ''risk factor'', ''risk factors'', ''increase the risk'']),
      (''diagnostic_techniques'', [''diagnostic'', ''diagnosis'', ''technique'', ''techniques'']),
      (''dataset'', [''dataset'', ''data set'', ''instances'', ''features'', ''source'']),
      (''cancer_types'',
         [''type of cancer'', ''types of cancer'', ''cancer types'', ''stage'', ''stages'']),
      (''results'',
         [''accuracy'', ''result'', ''results'', ''benchmark'', ''performance'', ''best model'']),
      (''conclusion'', [''conclusion'', ''summary''])]"

text \<open>\<^verbatim>\<open>str.strip()\<close>\<close>

definition strip :: "string \<Rightarrow> string" where
  "strip s = rev (dropWhile is_space (rev (dropWhile is_space s)))"

text \<open>\<^verbatim>\<open>re.sub(r"\s+", " ", s)\<close>: every maximal run of whitespace becomes one space.\<close>

function collapse_ws :: "string \<Rightarrow> string" where
  "collapse_ws [] = []"
| "collapse_ws (c # cs) =
     (if is_space c then CHR '' '' # collapse_ws (dropWhile is_space cs)
      else c # collapse_ws cs)"
  by pat_completeness auto
termination
  by (relation "measure length") (auto simp: less_Suc_eq_le length_dropWhile_le)

definition normalize_text :: "string \<Rightarrow> string" where
  "normalize_text text = collapse_ws (strip (lower text))"

text \<open>
  The shape of a normalized question in the words of the specification: lower-cased
  (no letter A-Z is left), whitespace-collapsed (the only whitespace is the space, and
  never two in a row) and trimmed (no space at either end).
\<close>

definition is_upper :: "char \<Rightarrow> bool" where
  "is_upper c = (let n = (of_char c :: nat) in 65 \<le> n \<and> n \<le> 90)"

definition is_normalized :: "string \<Rightarrow> bool" where
  "is_normalized s =
     ((\<forall>c\<in>set s. \<not> is_upper c \<and> (is_space c \<longrightarrow> c = CHR '' ''))
      \<and> \<not> sublist [CHR '' '', CHR '' ''] s
      \<and> (s \<noteq> [] \<longrightarrow> hd s \<noteq> CHR '' '' \<and> last s \<noteq> CHR '' ''))"

text \<open>The inner loop over the keywords of one intent: \<^verbatim>\<open>return intent\<close> at the first hit.\<close>

fun keyword_loop :: "string \<Rightarrow> string \<Rightarrow> string list \<Rightarrow> string option" where
  "keyword_loop q intent [] = None"
| "keyword_loop q intent (kw # kws) =
     (if sublist kw q then Some intent else keyword_loop q intent kws)"

text \<open>The outer loop over the table, and \<^verbatim>\<open>return "generic"\<close> behind it.\<close>

fun intent_loop :: "string \<Rightarrow> (string \<times> string list) list \<Rightarrow> string" where
  "intent_loop q [] = ''generic''"
| "intent_loop q ((intent, keywords) # rest) =
     (case keyword_loop q intent keywords of
        Some found \<Rightarrow> found
      | None \<Rightarrow> intent_loop q rest)"

definition detect_intent :: "string \<Rightarrow> string" where
  "detect_intent question = intent_loop (normalize_text question) INTENTS"

text \<open>
  The table in the words of the specification: the (intent, keyword) pairs in table
  order and, within an intent, in list order; the first pair whose keyword occurs decides.
\<close>

definition keyword_pairs :: "(string \<times> string list) list \<Rightarrow> (string \<times> string) list" where
  "keyword_pairs table = concat (map (\<lambda>(intent, kws). map (Pair intent) kws) table)"

definition first_match_intent :: "string \<Rightarrow> (string \<times> string list) list \<Rightarrow> string" where
  "first_match_intent q table =
     (case find (\<lambda>(intent, kw). sublist kw q) (keyword_pairs table) of
        None \<Rightarrow> ''generic''
      | Some (intent, kw) \<Rightarrow> intent)"

section \<open>Query spec builder (cypher_builder.py)\<close>

record query_spec =
  tag :: string
  query :: string
  params :: "string \<rightharpoonup> string"

text \<open>The chain of \<^verbatim>\<open>if\<close>/\<^verbatim>\<open>elif\<close>: what each branch appends to the empty list.\<close>

definition intent_specs :: "string \<Rightarrow> query_spec list" where
  "intent_specs intent =
     (if intent = ''symptoms'' then
        [\<lparr>tag = ''Symptoms'',
          query = ''MATCH (:Introduction)-[:MENTIONS_SYMPTOM]->(s:Symptom) RETURN s.name AS item'',
          params = Map.empty\<rparr>]
      else if intent = ''risk_factors'' then
        [\<lparr>tag = ''RiskFactors'',
          query = ''MATCH (:Introduction)-[:IDENTIFIES_RISK_FACTOR]->(r:RiskFactor) RETURN r.name AS item'',
          params = Map.empty\<rparr>]
      else if intent = ''diagnostic_techniques'' then
        [\<lparr>tag = ''DiagnosticTechniques'',
          query = ''MATCH (:Introduction)-[:USES_TECHNIQUE]->(t:Technique) RETURN t.name AS item'',
          params = Map.empty\<rparr>]
      else if intent = ''dataset'' then
        [\<lparr>tag = ''Dataset'',
          query = ''MATCH (:Methodology)-[:USES_DATASET]->(d:Dataset) RETURN d.name AS name, d.source AS source, d.instances AS instances, d.features AS features, d.format AS format'',
          params = Map.empty\<rparr>]
      else if intent = ''cancer_types'' then
        [\<lparr>tag = ''CancerTypes'',
          query = ''MATCH (:Introduction)-[:DISCUSSES_CANCER_TYPE]->(c:CancerType) RETURN c.name AS item'',
          params = Map.empty\<rparr>]
      else if intent = ''results'' then
        [\<lparr>tag = ''Results'',
          query = ''MATCH (m:Model)-[:HAS_RESULT]->(r:Result) RETURN coalesce(m.full_name,m.name) AS model, r.metric AS metric, r.accuracy AS accuracy'',
          params = Map.empty\<rparr>,
         \<lparr>tag = ''BestModel'',
          query = ''MATCH (:Paper)-[:BEST_MODEL]->(m:Model) RETURN coalesce(m.full_name,m.name) AS bestModel'',
          params = Map.empty\<rparr>]
      else if intent = ''conclusion'' then
        [\<lparr>tag = ''Conclusion'',
          query = ''MATCH (s:Section:Conclusion) RETURN s.name AS name, s.text AS text'',
          params = Map.empty\<rparr>]
      else [])"

definition fallback_spec :: "string \<Rightarrow> query_spec" where
  "fallback_spec question_text =
     \<lparr>tag = ''Sections'',
      query = ''MATCH (s:Section) WHERE toLower(s.text) CONTAINS toLower($q) RETURN s.name AS name, s.text AS text LIMIT 50'',
      params = [''q'' \<mapsto> question_text]\<rparr>"

text \<open>\<^verbatim>\<open>if not specs: specs.append(...)\<close> behind the chain.\<close>

definition build_queries :: "string \<Rightarrow> entities \<Rightarrow> string \<Rightarrow> query_spec list" where
  "build_queries intent ents question_text =
     (let specs = intent_specs intent
      in if specs = [] then specs @ [fallback_spec question_text] else specs)"

definition specific_intents :: "string list" where
  "specific_intents =
     [''symptoms'', ''risk_factors'', ''diagnostic_techniques'', ''dataset'',
      ''cancer_types'', ''results'', ''conclusion'']"



text \<open>
  C1 (as stated): the scoring target of a row is the field \<^verbatim>\<open>text\<close> if present, else
  \<^verbatim>\<open>item\<close>, else \<^verbatim>\<open>model\<close>, else the empty string, presence and not truthiness
  deciding. This fails: a row whose field \<^verbatim>\<open>text\<close> is present and empty is scored on
  its field \<^verbatim>\<open>item\<close>.
\<close>

theorem text_of_presence_counterexample:
  "text_of [''text'' \<mapsto> PyStr '''', ''item'' \<mapsto> PyStr ''cough''] = PyStr ''cough''
   \<and> text_by_presence [''text'' \<mapsto> PyStr '''', ''item'' \<mapsto> PyStr ''cough''] = PyStr ''''"
  by (simp add: text_of_def text_by_presence_def py_or_def dict_get_def)

text \<open>
  C1 (amended): the scoring target of a row is the value of the first of the fields
  \<^verbatim>\<open>text\<close>, \<^verbatim>\<open>item\<close>, \<^verbatim>\<open>model\<close> whose value is truthy, and the empty string when
  none is; when every one of these fields that is present holds a truthy value, this is
  the precedence by presence.
\<close>

theorem text_of_first_truthy:
  "text_of r = first_truthy r [''text'', ''item'', ''model'']
   \<and> ((\<forall>k \<in> {''text'', ''item'', ''model''}. \<forall>v. r k = Some v \<longrightarrow> truthy v)
        \<longrightarrow> text_of r = text_by_presence r)"
  by (auto simp: text_of_def first_truthy_def text_by_presence_def py_or_def dict_get_def
           split: option.splits)

text \<open>
  A row with the field \<^verbatim>\<open>item\<close> only, holding a non-empty string: presence and
  truthiness agree, and the row is scored on that string.
\<close>

theorem text_of_first_truthy_witness:
  "[''item'' \<mapsto> PyStr ''cough''] ''text'' = None
   \<and> [''item'' \<mapsto> PyStr ''cough''] ''item'' = Some (PyStr ''cough'')
   \<and> [''item'' \<mapsto> PyStr ''cough''] ''model'' = None
   \<and> truthy (PyStr ''cough'')
   \<and> text_of [''item'' \<mapsto> PyStr ''cough''] = text_by_presence [''item'' \<mapsto> PyStr ''cough'']
   \<and> text_of [''item'' \<mapsto> PyStr ''cough''] = first_truthy [''item'' \<mapsto> PyStr ''cough'']
        [''text'', ''item'', ''model'']
   \<and> text_by_presence [''item'' \<mapsto> PyStr ''cough''] = PyStr ''cough''"
proof -
  let ?r = "[''item'' \<mapsto> PyStr ''cough'']"
  have hyp: "\<forall>k \<in> {''text'', ''item'', ''model''}. \<forall>v. ?r k = Some v \<longrightarrow> truthy v"
    by simp
  from text_of_first_truthy[of ?r] hyp
  have eq: "text_of ?r = text_by_presence ?r"
    and ft: "text_of ?r = first_truthy ?r [''text'', ''item'', ''model'']"
    by blast+
  have val: "text_by_presence ?r = PyStr ''cough''"
    by (simp add: text_by_presence_def)
  show ?thesis using eq ft val by simp
qed


subsection \<open>Tokenizer\<close>

lemma or_empty_lower_str: "or_empty_lower (PyStr s) = Inr (lower s)"
  by (cases s) (simp_all add: or_empty_lower_def py_or_def py_lower_def lower_def)

lemma tokenize_str: "tokenize (PyStr s) = Inr (findall (lower s))"
  by (simp add: tokenize_def or_empty_lower_str)

lemma letter_not_hyphen: "is_letter c \<Longrightarrow> c \<noteq> CHR ''-''"
  by (auto simp: is_letter_def)

text \<open>A run of at most two class characters holds no token.\<close>

lemma findall_short_run:
  "length (takeWhile is_token_char cs) \<le> 2 \<Longrightarrow> findall cs = findall (dropWhile is_token_char cs)"
proof (induction cs)
  case Nil
  then show ?case by simp
next
  case (Cons d ds)
  show ?case
  proof (cases "is_token_char d")
    case True
    with Cons.prems have short: "length (takeWhile is_token_char ds) \<le> 1" by simp
    then have "findall (d # ds) = findall ds" by simp
    also have "\<dots> = findall (dropWhile is_token_char ds)"
      using short by (intro Cons.IH) simp
    finally show ?thesis using True by simp
  next
    case False
    then show ?thesis by simp
  qed
qed

text \<open>
  The scan of the run at the front of the text: it yields the run without its leading
  hyphens when that is long enough, and goes on behind the run.
\<close>

lemma findall_run:
  "findall cs =
     filter (\<lambda>w. 3 \<le> length w) [dropWhile (\<lambda>c. c = CHR ''-'') (takeWhile is_token_char cs)]
       @ findall (dropWhile is_token_char cs)"
proof (induction cs)
  case Nil
  then show ?case by simp
next
  case (Cons d ds)
  consider (other) "\<not> is_token_char d" | (hy) "d = CHR ''-''" | (letter) "is_letter d"
    by (auto simp: is_token_char_def)
  then show ?case
  proof cases
    case other
    then show ?thesis by simp
  next
    case hy
    then have "\<not> is_letter d" "is_token_char d"
      using letter_not_hyphen by (auto simp: is_token_char_def)
    then show ?thesis using Cons.IH hy by simp
  next
    case letter
    then have tc: "is_token_char d" and nh: "d \<noteq> CHR ''-''"
      using letter_not_hyphen by (auto simp: is_token_char_def)
    show ?thesis
    proof (cases "2 \<le> length (takeWhile is_token_char ds)")
      case True
      then show ?thesis using letter tc nh by simp
    next
      case False
      then have "findall (d # ds) = findall ds" by simp
      also have "\<dots> = findall (dropWhile is_token_char ds)"
        using False by (intro findall_short_run) simp
      finally show ?thesis using False tc nh by simp
    qed
  qed
qed

lemma findall_runs:
  "findall s =
     filter (\<lambda>w. 3 \<le> length w)
       (map (dropWhile (\<lambda>c. c = CHR ''-'')) (runs is_token_char s))"
proof (induction "is_token_char" s rule: runs.induct)
  case 1
  then show ?case by simp
next
  case (2 c cs)
  show ?case
  proof (cases "is_token_char c")
    case True
    have "findall (c # cs) =
       filter (\<lambda>w. 3 \<le> length w)
         [dropWhile (\<lambda>c. c = CHR ''-'') (takeWhile is_token_char (c # cs))]
         @ findall (dropWhile is_token_char (c # cs))"
      by (rule findall_run)
    then show ?thesis using True 2(1)[OF True] by simp
  next
    case False
    then have "\<not> is_letter c" by (simp add: is_token_char_def)
    then show ?thesis using False 2(2)[OF False] by simp
  qed
qed

text \<open>
  C7 (as stated): tokenization yields exactly the maximal runs of letters and hyphens of
  length at least 3, case-folded. This fails on a run that begins with a hyphen: the
  pattern wants a letter first, so the run \<^verbatim>\<open>-abc\<close> of length 4 gives the token
  \<^verbatim>\<open>abc\<close>.
\<close>

theorem tokenize_maximal_runs_counterexample:
  "tokenize (PyStr ''-abc'') = Inr [''abc'']
   \<and> maximal_runs_tokens ''-abc'' = [''-abc'']
   \<and> tokenize (PyStr ''-abc'') \<noteq> Inr (maximal_runs_tokens ''-abc'')"
  by code_simp

text \<open>
  C7 (amended): for every input string, tokenization yields, for each maximal run of
  letters and hyphens of the case-folded text, in order, the run without its leading
  hyphens, when what is left has length at least 3.
\<close>

theorem tokenize_letter_led:
  "tokenize (PyStr s) = Inr (letter_led_tokens s)"
  by (simp add: tokenize_str letter_led_tokens_def findall_runs)

subsection \<open>Lexical overlap\<close>

lemma lexical_overlap_str:
  "lexical_overlap_score (PyStr q) (PyStr t) =
     Inr (if set (findall (lower q)) = {} \<or> set (findall (lower t)) = {} then 0
          else real (card (set (findall (lower q)) \<inter> set (findall (lower t))))
               / real (max 1 (card (set (findall (lower q))))))"
  by (simp add: lexical_overlap_score_def tokenize_str Let_def)

lemma lexical_overlap_bounds:
  assumes "lexical_overlap_score (PyStr q) (PyStr t) = Inr x"
  shows "0 \<le> x \<and> x \<le> 1"
proof -
  let ?Q = "set (findall (lower q))" and ?T = "set (findall (lower t))"
  have "card (?Q \<inter> ?T) \<le> card ?Q" by (simp add: card_mono)
  then have "real (card (?Q \<inter> ?T)) / real (max 1 (card ?Q)) \<le> 1"
    by (auto simp: divide_le_eq_1 max_def)
  moreover have "0 \<le> real (card (?Q \<inter> ?T)) / real (max 1 (card ?Q))" by simp
  ultimately show ?thesis using assms unfolding lexical_overlap_str
    by (auto split: if_splits)
qed

text \<open>
  C9: for all strings \<open>q\<close> and \<open>t\<close>, \<^verbatim>\<open>lexical_overlap_score(q, t)\<close> returns a value
  (it is total on strings): 0 when either token set is empty, in particular when
  \<open>q\<close> or \<open>t\<close> is the empty string, and otherwise the number of common tokens divided by
  \<^verbatim>\<open>max(1, number of question tokens)\<close>, a divisor that is never 0.
\<close>

theorem lexical_overlap_score_total:
  "\<exists>qs ts.
     tokenize (PyStr q) = Inr qs \<and> tokenize (PyStr t) = Inr ts
     \<and> lexical_overlap_score (PyStr q) (PyStr t) =
         Inr (if set qs = {} \<or> set ts = {} then 0
              else real (card (set qs \<inter> set ts)) / real (max 1 (card (set qs))))
     \<and> 0 < max 1 (card (set qs))
     \<and> lexical_overlap_score (PyStr q) (PyStr '''') = Inr 0
     \<and> lexical_overlap_score (PyStr '''') (PyStr t) = Inr 0"
proof -
  have "findall (lower '''') = []" by (simp add: lower_def)
  then have "lexical_overlap_score (PyStr q) (PyStr '''') = Inr 0"
    and "lexical_overlap_score (PyStr '''') (PyStr t) = Inr 0"
    by (simp_all add: lexical_overlap_str)
  then show ?thesis
    by (simp add: tokenize_str lexical_overlap_str)
qed

subsection \<open>Entity boost\<close>

lemma boost_loop_count:
  "boost_loop t xs score = score + 0.2 * real (length (filter (\<lambda>x. sublist x t) xs))"
  by (induction xs arbitrary: score) (auto simp: algebra_simps)

lemma entity_match_boost_str:
  "entity_match_boost (PyStr text) ents =
     Inr (min (0.2 * real (length (filter (\<lambda>x. sublist x (lower text)) (entities_get ents ''algorithms''))
                         + length (filter (\<lambda>x. sublist x (lower text)) (entities_get ents ''diseases''))))
              0.6)"
  by (simp add: entity_match_boost_def or_empty_lower_str boost_loop_count Let_def algebra_simps)

lemma entity_match_boost_bounds:
  assumes "entity_match_boost (PyStr text) ents = Inr x"
  shows "0 \<le> x \<and> x \<le> 0.6"
  using assms unfolding entity_match_boost_str by (auto simp: min_def)

text \<open>
  C8: for every candidate text and every entity set, \<^verbatim>\<open>entity_match_boost\<close> returns 0.2
  for each entry of the list stored under \<^verbatim>\<open>algorithms\<close> in the entity set that occurs
  as a substring of the lower-cased text, plus 0.2 for each entry of the list stored under
  \<^verbatim>\<open>diseases\<close> that likewise occurs (a key that is absent counts as the empty list),
  capped at 0.6: the result never exceeds 0.6.
\<close>

theorem entity_match_boost_capped:
  "\<exists>b. entity_match_boost (PyStr text) ents = Inr b
     \<and> b = min (0.2 * real
                  (length (filter (\<lambda>alg. sublist alg (lower text))
                             (case ents ''algorithms'' of None \<Rightarrow> [] | Some algs \<Rightarrow> algs))
                   + length (filter (\<lambda>dis. sublist dis (lower text))
                               (case ents ''diseases'' of None \<Rightarrow> [] | Some dis \<Rightarrow> dis))))
               0.6
     \<and> 0 \<le> b \<and> b \<le> 0.6"
  using entity_match_boost_bounds[of "text" ents]
  by (simp add: entity_match_boost_str entities_get_def)

text \<open>
  An entity set with four aliases and a disease. In the first text all five occur, and
  the boost is the cap 0.6 and not 1.0; in the second one alias and the disease occur,
  which gives 0.4; in the third only one alias occurs, which gives 0.2; in the last
  none occurs, which gives 0.
\<close>

theorem entity_match_boost_capped_witness:
  "example_aliases ''algorithms'' = Some [''svm'', ''ann'', ''rf'', ''mlr'']
   \<and> example_aliases ''diseases'' = Some [''lung cancer'']
   \<and> filter (\<lambda>alg. sublist alg (lower ''SVM, ANN, RF and MLR for lung cancer''))
        [''svm'', ''ann'', ''rf'', ''mlr''] = [''svm'', ''ann'', ''rf'', ''mlr'']
   \<and> filter (\<lambda>dis. sublist dis (lower ''SVM, ANN, RF and MLR for lung cancer''))
        [''lung cancer''] = [''lung cancer'']
   \<and> entity_match_boost (PyStr ''SVM, ANN, RF and MLR for lung cancer'') example_aliases
        = Inr 0.6
   \<and> entity_match_boost (PyStr ''Random forest (RF) on Lung Cancer data'') example_aliases
        = Inr 0.4
   \<and> entity_match_boost (PyStr ''svm classification model'') example_aliases = Inr 0.2
   \<and> entity_match_boost (PyStr ''cough'') example_aliases = Inr 0"
proof -
  have algs: "example_aliases ''algorithms'' = Some [''svm'', ''ann'', ''rf'', ''mlr'']"
    and dis: "example_aliases ''diseases'' = Some [''lung cancer'']"
    by (simp_all add: example_aliases_def)
  have a5: "filter (\<lambda>alg. sublist alg (lower ''SVM, ANN, RF and MLR for lung cancer''))
        [''svm'', ''ann'', ''rf'', ''mlr''] = [''svm'', ''ann'', ''rf'', ''mlr'']"
    and d5: "filter (\<lambda>dis. sublist dis (lower ''SVM, ANN, RF and MLR for lung cancer''))
        [''lung cancer''] = [''lung cancer'']"
    by code_simp+
  have a2: "filter (\<lambda>alg. sublist alg (lower ''Random forest (RF) on Lung Cancer data''))
        [''svm'', ''ann'', ''rf'', ''mlr''] = [''rf'']"
    and d2: "filter (\<lambda>dis. sublist dis (lower ''Random forest (RF) on Lung Cancer data''))
        [''lung cancer''] = [''lung cancer'']"
    by code_simp+
  have a1: "filter (\<lambda>alg. sublist alg (lower ''svm classification model''))
        [''svm'', ''ann'', ''rf'', ''mlr''] = [''svm'']"
    and d1: "filter (\<lambda>dis. sublist dis (lower ''svm classification model''))
        [''lung cancer''] = []"
    by code_simp+
  have a0: "filter (\<lambda>alg. sublist alg (lower ''cough''))
        [''svm'', ''ann'', ''rf'', ''mlr''] = []"
    and d0: "filter (\<lambda>dis. sublist dis (lower ''cough'')) [''lung cancer''] = []"
    by code_simp+
  have r5: "entity_match_boost (PyStr ''SVM, ANN, RF and MLR for lung cancer'') example_aliases = Inr 0.6"
  proof -
    from entity_match_boost_capped [of "''SVM, ANN, RF and MLR for lung cancer''" example_aliases]
    obtain b where e: "entity_match_boost (PyStr ''SVM, ANN, RF and MLR for lung cancer'') example_aliases = Inr b"
      and v: "b = min (0.2 * real
                  (length (filter (\<lambda>alg. sublist alg (lower ''SVM, ANN, RF and MLR for lung cancer''))
                             (case example_aliases ''algorithms'' of None \<Rightarrow> [] | Some algs \<Rightarrow> algs))
                   + length (filter (\<lambda>dis. sublist dis (lower ''SVM, ANN, RF and MLR for lung cancer''))
                               (case example_aliases ''diseases'' of None \<Rightarrow> [] | Some dis \<Rightarrow> dis))))
               0.6"
      by (elim exE conjE)
    from v have "b = 0.6"
      by (simp only: algs dis option.case a5 d5) simp
    with e show ?thesis by simp
  qed
  have r2: "entity_match_boost (PyStr ''Random forest (RF) on Lung Cancer data'') example_aliases = Inr 0.4"
  proof -
    from entity_match_boost_capped [of "''Random forest (RF) on Lung Cancer data''" example_aliases]
    obtain b where e: "entity_match_boost (PyStr ''Random forest (RF) on Lung Cancer data'') example_aliases = Inr b"
      and v: "b = min (0.2 * real
                  (length (filter (\<lambda>alg. sublist alg (lower ''Random forest (RF) on Lung Cancer data''))
                             (case example_aliases ''algorithms'' of None \<Rightarrow> [] | Some algs \<Rightarrow> algs))
                   + length (filter (\<lambda>dis. sublist dis (lower ''Random forest (RF) on Lung Cancer data''))
                               (case example_aliases ''diseases'' of None \<Rightarrow> [] | Some dis \<Rightarrow> dis))))
               0.6"
      by (elim exE conjE)
    from v have "b = 0.4"
      by (simp only: algs dis option.case a2 d2) simp
    with e show ?thesis by simp
  qed
  have r1: "entity_match_boost (PyStr ''svm classification model'') example_aliases = Inr 0.2"
  proof -
    from entity_match_boost_capped [of "''svm classification model''" example_aliases]
    obtain b where e: "entity_match_boost (PyStr ''svm classification model'') example_aliases = Inr b"
      and v: "b = min (0.2 * real
                  (length (filter (\<lambda>alg. sublist alg (lower ''svm classification model''))
                             (case example_aliases ''algorithms'' of None \<Rightarrow> [] | Some algs \<Rightarrow> algs))
                   + length (filter (\<lambda>dis. sublist dis (lower ''svm classification model''))
                               (case example_aliases ''diseases'' of None \<Rightarrow> [] | Some dis \<Rightarrow> dis))))
               0.6"
      by (elim exE conjE)
    from v have "b = 0.2"
      by (simp only: algs dis option.case a1 d1) simp
    with e show ?thesis by simp
  qed
  have r0: "entity_match_boost (PyStr ''cough'') example_aliases = Inr 0"
  proof -
    from entity_match_boost_capped [of "''cough''" example_aliases]
    obtain b where e: "entity_match_boost (PyStr ''cough'') example_aliases = Inr b"
      and v: "b = min (0.2 * real
                  (length (filter (\<lambda>alg. sublist alg (lower ''cough''))
                             (case example_aliases ''algorithms'' of None \<Rightarrow> [] | Some algs \<Rightarrow> algs))
                   + length (filter (\<lambda>dis. sublist dis (lower ''cough''))
                               (case example_aliases ''diseases'' of None \<Rightarrow> [] | Some dis \<Rightarrow> dis))))
               0.6"
      by (elim exE conjE)
    from v have "b = 0"
      by (simp only: algs dis option.case a0 d0) simp
    with e show ?thesis by simp
  qed
  show ?thesis
    by (rule conjI[OF algs conjI[OF dis conjI[OF a5 conjI[OF d5 conjI[OF r5 conjI[OF r2
          conjI[OF r1 r0]]]]]]])
qed

subsection \<open>The final score of a row\<close>

lemma text_of_cases:
  "(\<exists>s. text_of r = PyStr s) \<or> (truthy (text_of r) \<and> (\<forall>s. text_of r \<noteq> PyStr s))"
  by (auto simp: text_of_def py_or_def)

lemma or_empty_lower_text_of:
  "or_empty_lower (text_of r) =
     (case text_of r of PyStr s \<Rightarrow> Inr (lower s) | _ \<Rightarrow> Inl AttributeError)"
  using text_of_cases[of r]
  by (auto simp: or_empty_lower_str or_empty_lower_def py_or_def py_lower_def split: pyval.splits)

lemma proximity_bounds: "0 \<le> proximity tg \<and> proximity tg \<le> 0.2"
  by (simp add: proximity_def)

lemma proximity_tags:
  "proximity tg =
     (if tg \<in> {''Symptoms'', ''RiskFactors'', ''DiagnosticTechniques'', ''CancerTypes'',
                ''Dataset'', ''Results'', ''Conclusion''} then 0.2 else 0.0)"
  by (simp add: proximity_def domain_tags_def)

lemma final_score_str:
  assumes "text_of r = PyStr s"
  shows "\<exists>l e. lexical_overlap_score (PyStr q) (PyStr s) = Inr l
     \<and> entity_match_boost (PyStr s) ents = Inr e
     \<and> final_score q tg ents r = Inr (0.5 * l + 0.3 * e + 0.2 * proximity tg)
     \<and> 0 \<le> 0.5 * l + 0.3 * e + 0.2 * proximity tg
     \<and> 0.5 * l + 0.3 * e + 0.2 * proximity tg \<le> 1"
proof -
  obtain l where l: "lexical_overlap_score (PyStr q) (PyStr s) = Inr l"
    by (simp add: lexical_overlap_str)
  obtain e where e: "entity_match_boost (PyStr s) ents = Inr e"
    by (simp add: entity_match_boost_str)
  from lexical_overlap_bounds[OF l] entity_match_boost_bounds[OF e] proximity_bounds[of tg]
  have "0 \<le> 0.5 * l + 0.3 * e + 0.2 * proximity tg \<and> 0.5 * l + 0.3 * e + 0.2 * proximity tg \<le> 1"
    by simp
  then show ?thesis using l e assms by (simp add: final_score_def)
qed

lemma scorable_iff: "scorable r \<longleftrightarrow> (\<exists>s. text_of r = PyStr s)"
  by (auto simp: scorable_def split: pyval.splits)

text \<open>A row whose scoring target is not a string makes the call raise.\<close>

lemma final_score_not_scorable:
  "\<not> scorable r \<Longrightarrow> final_score q tg ents r = Inl AttributeError"
proof -
  assume "\<not> scorable r"
  then have "or_empty_lower (text_of r) = Inl AttributeError"
    by (simp add: or_empty_lower_text_of scorable_def split: pyval.splits)
  then have "tokenize (text_of r) = Inl AttributeError"
    by (simp add: tokenize_def)
  then have "lexical_overlap_score (PyStr q) (text_of r) = Inl AttributeError"
    by (simp add: lexical_overlap_score_def tokenize_str)
  then show ?thesis by (simp add: final_score_def)
qed

lemma final_score_scorable:
  "scorable r \<Longrightarrow> final_score q tg ents r = Inr (score_of q tg ents r)"
  using final_score_str[of r _ q ents tg] by (auto simp: scorable_iff score_of_def)

subsection \<open>Scored copies\<close>

lemma scored_copy_score: "scored_copy r f tg ''_score'' = Some (PyFloat f)"
  by (simp add: scored_copy_def)

lemma scored_copy_tag: "scored_copy r f tg ''_tag'' = Some (PyStr tg)"
  by (simp add: scored_copy_def)

lemma scored_copy_other:
  "k \<noteq> ''_score'' \<Longrightarrow> k \<noteq> ''_tag'' \<Longrightarrow> scored_copy r f tg k = r k"
  by (simp add: scored_copy_def)

lemma row_score_scored_copy: "row_score (scored_copy r f tg) = f"
  by (simp add: row_score_def scored_copy_score)

lemma text_of_scored_copy: "text_of (scored_copy r f tg) = text_of r"
  by (simp add: text_of_def dict_get_def scored_copy_other)

lemma scored_row_formula:
  assumes "scorable r"
  shows "\<exists>l e.
     lexical_overlap_score (PyStr q) (text_of (scored_row q tg ents r)) = Inr l \<and>
     entity_match_boost (text_of (scored_row q tg ents r)) ents = Inr e \<and>
     scored_row q tg ents r ''_score'' = Some (PyFloat (0.5 * l + 0.3 * e + 0.2 * proximity tg)) \<and>
     0 \<le> 0.5 * l + 0.3 * e + 0.2 * proximity tg \<and>
     0.5 * l + 0.3 * e + 0.2 * proximity tg \<le> 1"
proof -
  from assms obtain s where s: "text_of r = PyStr s" by (auto simp: scorable_iff)
  from final_score_str[OF s, of q ents tg] obtain l e where
    le: "lexical_overlap_score (PyStr q) (PyStr s) = Inr l"
        "entity_match_boost (PyStr s) ents = Inr e"
        "final_score q tg ents r = Inr (0.5 * l + 0.3 * e + 0.2 * proximity tg)"
        "0 \<le> 0.5 * l + 0.3 * e + 0.2 * proximity tg"
        "0.5 * l + 0.3 * e + 0.2 * proximity tg \<le> 1"
    by blast
  from le(3) have "score_of q tg ents r = 0.5 * l + 0.3 * e + 0.2 * proximity tg"
    by (simp add: score_of_def)
  then have "scored_row q tg ents r ''_score'' =
      Some (PyFloat (0.5 * l + 0.3 * e + 0.2 * proximity tg))"
    by (simp add: scored_row_def scored_copy_score)
  moreover have "text_of (scored_row q tg ents r) = PyStr s"
    by (simp add: scored_row_def text_of_scored_copy s)
  ultimately show ?thesis using le by auto
qed

subsection \<open>The loop over the rows\<close>

text \<open>One turn of the loop leaves the store as it was and adds the scored copy at its end.\<close>

lemma copy_step:
  "setitem (setitem (h @ [h ! a]) (length h) ''_score'' (PyFloat f)) (length h) ''_tag'' (PyStr tg)
     = h @ [scored_copy (h ! a) f tg]"
  by (simp add: setitem_def scored_copy_def)

lemma score_loop_Cons:
  "score_loop q tg ents (a # as) h scored =
     (case final_score q tg ents (h ! a) of
        Inl e \<Rightarrow> (h, Inl e)
      | Inr f \<Rightarrow> score_loop q tg ents as (h @ [scored_copy (h ! a) f tg]) (scored @ [length h]))"
  by (simp add: dict_copy_def copy_step split: sum.splits)

declare score_loop.simps(2) [simp del]

lemma score_loop_frame:
  "score_loop q tg ents rows h scored = (h', res) \<Longrightarrow> prefix h h'"
proof (induction rows arbitrary: h scored)
  case Nil
  then show ?case by simp
next
  case (Cons a as)
  show ?case
  proof (cases "final_score q tg ents (h ! a)")
    case (Inl e)
    with Cons.prems show ?thesis by (simp add: score_loop_Cons)
  next
    case (Inr f)
    with Cons.prems
    have "score_loop q tg ents as (h @ [scored_copy (h ! a) f tg]) (scored @ [length h]) = (h', res)"
      by (simp add: score_loop_Cons)
    from Cons.IH[OF this] show ?thesis by (rule append_prefixD)
  qed
qed

lemma score_loop_scorable:
  "\<forall>a\<in>set rows. a < length h \<and> scorable (h ! a) \<Longrightarrow>
   score_loop q tg ents rows h scored =
     (h @ map (\<lambda>a. scored_row q tg ents (h ! a)) rows,
      Inr (scored @ [length h ..< length h + length rows]))"
proof (induction rows arbitrary: h scored)
  case Nil
  then show ?case by simp
next
  case (Cons a as)
  let ?c = "scored_copy (h ! a) (score_of q tg ents (h ! a)) tg"
  from Cons.prems have fa: "final_score q tg ents (h ! a) = Inr (score_of q tg ents (h ! a))"
    by (simp add: final_score_scorable)
  have same: "(h @ [?c]) ! b = h ! b" if "b \<in> set as" for b
    using that Cons.prems by (simp add: nth_append)
  then have "\<forall>b\<in>set as. b < length (h @ [?c]) \<and> scorable ((h @ [?c]) ! b)"
    using Cons.prems by auto
  from Cons.IH[OF this, of "scored @ [length h]"]
  have "score_loop q tg ents as (h @ [?c]) (scored @ [length h]) =
     ((h @ [?c]) @ map (\<lambda>b. scored_row q tg ents ((h @ [?c]) ! b)) as,
      Inr ((scored @ [length h]) @ [length (h @ [?c]) ..< length (h @ [?c]) + length as]))" .
  moreover have "map (\<lambda>b. scored_row q tg ents ((h @ [?c]) ! b)) as =
      map (\<lambda>b. scored_row q tg ents (h ! b)) as"
    using same by simp
  moreover have "[length h ..< length h + length (a # as)] =
      length h # [length (h @ [?c]) ..< length (h @ [?c]) + length as]"
    by (subst upt_rec) simp
  ultimately show ?case using fa by (simp add: scored_row_def score_loop_Cons del: upt_Suc)
qed

lemma score_loop_raises:
  "\<forall>a\<in>set rows. a < length h \<Longrightarrow> \<exists>a\<in>set rows. \<not> scorable (h ! a) \<Longrightarrow>
   \<exists>h'. score_loop q tg ents rows h scored = (h', Inl AttributeError)"
proof (induction rows arbitrary: h scored)
  case Nil
  then show ?case by simp
next
  case (Cons a as)
  show ?case
  proof (cases "scorable (h ! a)")
    case False
    then show ?thesis by (simp add: final_score_not_scorable score_loop_Cons)
  next
    case True
    let ?c = "scored_copy (h ! a) (score_of q tg ents (h ! a)) tg"
    have same: "(h @ [?c]) ! b = h ! b" if "b \<in> set as" for b
      using that Cons.prems by (simp add: nth_append)
    have 1: "\<forall>b\<in>set as. b < length (h @ [?c])" using Cons.prems by auto
    have 2: "\<exists>b\<in>set as. \<not> scorable ((h @ [?c]) ! b)" using Cons.prems True same by auto
    from Cons.IH[OF 1 2] True show ?thesis by (simp add: final_score_scorable score_loop_Cons)
  qed
qed

subsection \<open>Sorting the references\<close>

lemma map_insort_key:
  "map g (insort_key (\<lambda>x. k (g x)) x xs) = insort_key k (g x) (map g xs)"
  by (induction xs) auto

lemma map_sort_key:
  "map g (sort_key (\<lambda>x. k (g x)) xs) = sort_key k (map g xs)"
  by (induction xs) (auto simp: map_insort_key)

lemma deref_fresh: "deref (h @ ns) [length h ..< length h + length ns] = ns"
  by (auto simp: deref_def intro!: nth_equalityI)

lemma deref_sort:
  "deref h (sort_by_score_desc h as) = sort_key (\<lambda>x. - row_score x) (deref h as)"
  using map_sort_key[of "\<lambda>a. h ! a" "\<lambda>x. - row_score x" as]
  by (simp add: deref_def sort_by_score_desc_def score_key_def)

lemma sorted_desc_sort:
  "sorted_wrt (\<lambda>x y. k y \<le> (k x :: real)) (sort_key (\<lambda>x. - k x) xs)"
proof -
  have "sorted (map (\<lambda>x. - k x) (sort_key (\<lambda>x. - k x) xs))" by (rule sorted_sort_key)
  then show ?thesis by (simp add: sorted_map)
qed

subsection \<open>What \<open>score_items\<close> returns\<close>

text \<open>
  On rows that can be scored the call returns: the store grows by the scored copies, in
  the order of the input, and the result lists the new references sorted by score.
\<close>

lemma score_items_scorable:
  assumes "\<forall>a\<in>set rows. a < length h \<and> scorable (h ! a)"
  shows "\<exists>h' out. score_items q tg rows ents h = (h', Inr out)
     \<and> h' = h @ map (\<lambda>a. scored_row q tg ents (h ! a)) rows
     \<and> out = sort_by_score_desc h' [length h ..< length h + length rows]
     \<and> deref h' out =
         sort_key (\<lambda>x. - row_score x) (map (\<lambda>a. scored_row q tg ents (h ! a)) rows)"
proof -
  let ?ns = "map (\<lambda>a. scored_row q tg ents (h ! a)) rows"
  have "deref (h @ ?ns) [length h ..< length h + length ?ns] = ?ns" by (rule deref_fresh)
  then have "deref (h @ ?ns) [length h ..< length h + length rows] = ?ns" by simp
  then show ?thesis
    using score_loop_scorable[OF assms, of q tg ents "[]"]
    by (simp add: score_items_def deref_sort)
qed

text \<open>It returns exactly then: any other row makes it raise \<^verbatim>\<open>AttributeError\<close>.\<close>

lemma score_items_returns_iff:
  assumes "\<forall>a\<in>set rows. a < length h"
  shows "(\<exists>h' out. score_items q tg rows ents h = (h', Inr out))
     \<longleftrightarrow> (\<forall>a\<in>set rows. scorable (h ! a))"
proof
  assume "\<exists>h' out. score_items q tg rows ents h = (h', Inr out)"
  then show "\<forall>a\<in>set rows. scorable (h ! a)"
    using score_loop_raises[OF assms, of q tg ents "[]"]
    by (fastforce simp: score_items_def split: prod.splits sum.splits)
next
  assume "\<forall>a\<in>set rows. scorable (h ! a)"
  with assms have "\<forall>a\<in>set rows. a < length h \<and> scorable (h ! a)" by simp
  from score_items_scorable[OF this]
  show "\<exists>h' out. score_items q tg rows ents h = (h', Inr out)"
    by blast
qed

lemma score_items_frame:
  "score_items q tg rows ents h = (h', res) \<Longrightarrow> prefix h h'"
  by (auto simp: score_items_def split: prod.splits sum.splits dest: score_loop_frame)

text \<open>
  C4: when \<^verbatim>\<open>score_items\<close> is given rows that can be scored (valid references to rows
  whose scoring target is a string), it returns one scored row per input row, and every
  scored row carries under \<^verbatim>\<open>_score\<close> the value 0.5 * lexical overlap + 0.3 * entity
  boost + 0.2 * proximity, computed on the row's own scoring target, where the proximity
  is 0.2 for a tag of the fixed set of domain tags and 0 otherwise; this value lies
  between 0 and 1.
\<close>

theorem score_items_score_formula:
  assumes "\<forall>a\<in>set rows. a < length h \<and> scorable (h ! a)"
  shows "\<exists>h' out. score_items q tg rows ents h = (h', Inr out) \<and> length out = length rows \<and>
     (\<forall>x\<in>set (deref h' out). \<exists>l e.
        lexical_overlap_score (PyStr q) (text_of x) = Inr l \<and>
        entity_match_boost (text_of x) ents = Inr e \<and>
        x ''_score'' = Some (PyFloat (0.5 * l + 0.3 * e + 0.2 * proximity tg)) \<and>
        0 \<le> 0.5 * l + 0.3 * e + 0.2 * proximity tg \<and>
        0.5 * l + 0.3 * e + 0.2 * proximity tg \<le> 1) \<and>
     proximity tg =
       (if tg \<in> {''Symptoms'', ''RiskFactors'', ''DiagnosticTechniques'', ''CancerTypes'',
                  ''Dataset'', ''Results'', ''Conclusion''} then 0.2 else 0.0)"
proof -
  from score_items_scorable[OF assms, of q tg ents] obtain h' out where
    r: "score_items q tg rows ents h = (h', Inr out)"
       "out = sort_by_score_desc h' [length h ..< length h + length rows]"
       "deref h' out =
          sort_key (\<lambda>x. - row_score x) (map (\<lambda>a. scored_row q tg ents (h ! a)) rows)"
    by blast
  have len: "length out = length rows" using r(2) by (simp add: sort_by_score_desc_def)
  have "set (deref h' out) = (\<lambda>a. scored_row q tg ents (h ! a)) ` set rows"
    using r(3) by simp
  then have src: "\<forall>x\<in>set (deref h' out). \<exists>a\<in>set rows. x = scored_row q tg ents (h ! a)"
    by auto
  have "\<forall>x\<in>set (deref h' out). \<exists>l e.
        lexical_overlap_score (PyStr q) (text_of x) = Inr l \<and>
        entity_match_boost (text_of x) ents = Inr e \<and>
        x ''_score'' = Some (PyFloat (0.5 * l + 0.3 * e + 0.2 * proximity tg)) \<and>
        0 \<le> 0.5 * l + 0.3 * e + 0.2 * proximity tg \<and>
        0.5 * l + 0.3 * e + 0.2 * proximity tg \<le> 1"
  proof
    fix x assume "x \<in> set (deref h' out)"
    with src obtain a where a: "a \<in> set rows" "x = scored_row q tg ents (h ! a)" by blast
    from a(1) assms have "scorable (h ! a)" by simp
    from scored_row_formula[OF this, of q tg ents] show "\<exists>l e.
        lexical_overlap_score (PyStr q) (text_of x) = Inr l \<and>
        entity_match_boost (text_of x) ents = Inr e \<and>
        x ''_score'' = Some (PyFloat (0.5 * l + 0.3 * e + 0.2 * proximity tg)) \<and>
        0 \<le> 0.5 * l + 0.3 * e + 0.2 * proximity tg \<and>
        0.5 * l + 0.3 * e + 0.2 * proximity tg \<le> 1"
      unfolding a(2) .
  qed
  with r(1) len proximity_tags[of tg] show ?thesis by blast
qed

text \<open>
  The rows of the example are scored on the example question with the tag
  \<^verbatim>\<open>Symptoms\<close>: the copies are the objects 3, 4 and 5, with the scores 0.04, 0.1 and
  0.04, and the result lists them as 4, 3, 5.
\<close>

theorem score_items_score_formula_witness:
  "list_all (\<lambda>a. a < length example_store \<and> scorable (example_store ! a)) [0, 1, 2]
   \<and> (\<exists>h' out.
        score_items example_question ''Symptoms'' [0, 1, 2] example_entities example_store
          = (h', Inr out)
        \<and> length out = length [0 :: nat, 1, 2]
        \<and> (\<forall>x\<in>set (deref h' out). \<exists>l e.
             lexical_overlap_score (PyStr example_question) (text_of x) = Inr l \<and>
             entity_match_boost (text_of x) example_entities = Inr e \<and>
             x ''_score'' = Some (PyFloat (0.5 * l + 0.3 * e + 0.2 * proximity ''Symptoms'')) \<and>
             0 \<le> 0.5 * l + 0.3 * e + 0.2 * proximity ''Symptoms'' \<and>
             0.5 * l + 0.3 * e + 0.2 * proximity ''Symptoms'' \<le> 1)
        \<and> proximity ''Symptoms'' =
            (if ''Symptoms'' \<in> {''Symptoms'', ''RiskFactors'', ''DiagnosticTechniques'',
                ''CancerTypes'', ''Dataset'', ''Results'', ''Conclusion''} then 0.2 else 0.0))
   \<and> snd (score_items example_question ''Symptoms'' [0, 1, 2] example_entities example_store)
        = Inr [4, 3, 5]
   \<and> map (score_key
            (fst (score_items example_question ''Symptoms'' [0, 1, 2] example_entities
                    example_store)))
        [4, 3, 5] = [0.1, 0.04, 0.04]"
proof -
  have hyp: "\<forall>a\<in>set [0, 1, 2]. a < length example_store \<and> scorable (example_store ! a)"
    by code_simp
  then have hyp': "list_all (\<lambda>a. a < length example_store \<and> scorable (example_store ! a)) [0, 1, 2]"
    by (simp only: list_all_iff)
  have run: "snd (score_items example_question ''Symptoms'' [0, 1, 2] example_entities
                    example_store) = Inr [4, 3, 5]"
    by code_simp
  have keys: "map (score_key
            (fst (score_items example_question ''Symptoms'' [0, 1, 2] example_entities
                    example_store)))
        [4, 3, 5] = [0.1, 0.04, 0.04]"
    by code_simp
  note concl = score_items_score_formula
    [OF hyp, of example_question "''Symptoms''" example_entities]
  show ?thesis by (rule conjI[OF hyp' conjI[OF concl conjI[OF run keys]]])
qed

text \<open>
  C6: when \<^verbatim>\<open>score_items\<close> is given rows that can be scored, the rows it returns are in
  descending order of \<^verbatim>\<open>_score\<close>, and the sort is stable. The copy of the \<open>i\<close>-th input
  row is the \<open>i\<close>-th new object of the store; among the returned references with one
  and the same score, these objects come in increasing order, which is the order of the
  input rows. The same holds of the returned rows read as values.
\<close>

theorem score_items_sorted_stable:
  assumes "\<forall>a\<in>set rows. a < length h \<and> scorable (h ! a)"
  shows "\<exists>h' out. score_items q tg rows ents h = (h', Inr out) \<and>
     sorted_wrt (\<lambda>x y. row_score y \<le> row_score x) (deref h' out) \<and>
     (\<forall>i<length rows. h' ! (length h + i) = scored_row q tg ents (h ! (rows ! i))) \<and>
     (\<forall>s. filter (\<lambda>b. row_score (h' ! b) = s) out =
           filter (\<lambda>b. row_score (h' ! b) = s) [length h ..< length h + length rows]) \<and>
     (\<forall>s. filter (\<lambda>x. row_score x = s) (deref h' out) =
           filter (\<lambda>x. row_score x = s) (map (\<lambda>a. scored_row q tg ents (h ! a)) rows))"
proof -
  let ?ns = "map (\<lambda>a. scored_row q tg ents (h ! a)) rows"
  from score_items_scorable[OF assms, of q tg ents] obtain h' out where
    r: "score_items q tg rows ents h = (h', Inr out)"
       "h' = h @ ?ns"
       "out = sort_by_score_desc h' [length h ..< length h + length rows]"
       "deref h' out = sort_key (\<lambda>x. - row_score x) ?ns"
    by blast
  have 1: "sorted_wrt (\<lambda>x y. row_score y \<le> row_score x) (deref h' out)"
    unfolding r(4) by (rule sorted_desc_sort)
  have 2: "\<forall>i<length rows. h' ! (length h + i) = scored_row q tg ents (h ! (rows ! i))"
    unfolding r(2) by (simp add: nth_append)
  have 3: "filter (\<lambda>b. row_score (h' ! b) = s) out =
           filter (\<lambda>b. row_score (h' ! b) = s) [length h ..< length h + length rows]" for s
    using sort_key_stable[of "\<lambda>b. - row_score (h' ! b)" "- s"
            "[length h ..< length h + length rows]"]
    unfolding r(3) sort_by_score_desc_def score_key_def by simp
  have 4: "filter (\<lambda>x. row_score x = s) (deref h' out) = filter (\<lambda>x. row_score x = s) ?ns"
    for s
    using sort_key_stable[of "\<lambda>x. - row_score x" "- s" ?ns]
    unfolding r(4) by simp
  from r(1) 1 2 3 4 show ?thesis by blast
qed

text \<open>
  On the example the first and the third row tie at 0.04: their copies, the objects 3
  and 5, keep this order behind the object 4 with the score 0.1.
\<close>

theorem score_items_sorted_stable_witness:
  "list_all (\<lambda>a. a < length example_store \<and> scorable (example_store ! a)) [0, 1, 2]
   \<and> (\<exists>h' out.
        score_items example_question ''Symptoms'' [0, 1, 2] example_entities example_store
          = (h', Inr out) \<and>
        sorted_wrt (\<lambda>x y. row_score y \<le> row_score x) (deref h' out) \<and>
        (\<forall>i<length [0 :: nat, 1, 2]. h' ! (length example_store + i) =
           scored_row example_question ''Symptoms'' example_entities
             (example_store ! ([0, 1, 2] ! i))) \<and>
        (\<forall>s. filter (\<lambda>b. row_score (h' ! b) = s) out =
              filter (\<lambda>b. row_score (h' ! b) = s)
                [length example_store ..< length example_store + length [0 :: nat, 1, 2]]) \<and>
        (\<forall>s. filter (\<lambda>x. row_score x = s) (deref h' out) =
              filter (\<lambda>x. row_score x = s)
                (map (\<lambda>a. scored_row example_question ''Symptoms'' example_entities
                            (example_store ! a)) [0, 1, 2])))
   \<and> snd (score_items example_question ''Symptoms'' [0, 1, 2] example_entities example_store)
        = Inr [4, 3, 5]
   \<and> map (score_key
            (fst (score_items example_question ''Symptoms'' [0, 1, 2] example_entities
                    example_store)))
        [3, 4, 5] = [0.04, 0.1, 0.04]"
proof -
  have hyp: "\<forall>a\<in>set [0, 1, 2]. a < length example_store \<and> scorable (example_store ! a)"
    by code_simp
  then have hyp': "list_all (\<lambda>a. a < length example_store \<and> scorable (example_store ! a)) [0, 1, 2]"
    by (simp only: list_all_iff)
  have run: "snd (score_items example_question ''Symptoms'' [0, 1, 2] example_entities
                    example_store) = Inr [4, 3, 5]"
    by code_simp
  have keys: "map (score_key
            (fst (score_items example_question ''Symptoms'' [0, 1, 2] example_entities
                    example_store)))
        [3, 4, 5] = [0.04, 0.1, 0.04]"
    by code_simp
  note concl = score_items_sorted_stable
    [OF hyp, of example_question "''Symptoms''" example_entities]
  show ?thesis by (rule conjI[OF hyp' conjI[OF concl conjI[OF run keys]]])
qed

text \<open>
  C10: \<^verbatim>\<open>score_items\<close> never mutates the caller's rows: whatever the outcome, every
  object that was in the store before the call is the same after it. When the rows can
  be scored the call returns one new object per input row, none of them an object of
  the caller: the \<open>i\<close>-th new object is the \<open>i\<close>-th input row with \<^verbatim>\<open>_score\<close> and
  \<^verbatim>\<open>_tag\<close> added, every returned row carries \<^verbatim>\<open>_tag\<close> equal to the tag argument, and
  a second call on the same inputs returns rows equal to those of the first, with the
  same scores, and again leaves the caller's rows alone.
\<close>

theorem score_items_no_mutation:
  assumes "\<forall>a\<in>set rows. a < length h"
  shows "\<exists>h' res. score_items q tg rows ents h = (h', res) \<and>
     length h \<le> length h' \<and> (\<forall>a<length h. h' ! a = h ! a) \<and>
     ((\<forall>a\<in>set rows. scorable (h ! a)) \<longrightarrow>
        (\<exists>out. res = Inr out \<and> length out = length rows \<and> distinct out \<and>
           set out = {length h ..< length h + length rows} \<and>
           (\<forall>i<length rows. h' ! (length h + i) =
              ((h ! (rows ! i))(''_score'' \<mapsto> PyFloat (score_of q tg ents (h ! (rows ! i)))))
                (''_tag'' \<mapsto> PyStr tg)) \<and>
           (\<forall>x\<in>set (deref h' out). x ''_tag'' = Some (PyStr tg)) \<and>
           (\<exists>h'' out2. score_items q tg rows ents h' = (h'', Inr out2) \<and>
              deref h'' out2 = deref h' out \<and>
              map (score_key h'') out2 = map (score_key h') out \<and>
              (\<forall>a<length h. h'' ! a = h ! a))))"
proof -
  obtain h' res where r: "score_items q tg rows ents h = (h', res)"
    by (cases "score_items q tg rows ents h")
  from score_items_frame[OF r] obtain ext where ext: "h' = h @ ext"
    by (auto simp: prefix_def)
  then have frame: "length h \<le> length h'" "\<forall>a<length h. h' ! a = h ! a"
    by (simp_all add: nth_append)
  have main: "\<exists>out. res = Inr out \<and> length out = length rows \<and> distinct out \<and>
           set out = {length h ..< length h + length rows} \<and>
           (\<forall>i<length rows. h' ! (length h + i) =
              ((h ! (rows ! i))(''_score'' \<mapsto> PyFloat (score_of q tg ents (h ! (rows ! i)))))
                (''_tag'' \<mapsto> PyStr tg)) \<and>
           (\<forall>x\<in>set (deref h' out). x ''_tag'' = Some (PyStr tg)) \<and>
           (\<exists>h'' out2. score_items q tg rows ents h' = (h'', Inr out2) \<and>
              deref h'' out2 = deref h' out \<and>
              map (score_key h'') out2 = map (score_key h') out \<and>
              (\<forall>a<length h. h'' ! a = h ! a))"
    if sc: "\<forall>a\<in>set rows. scorable (h ! a)"
  proof -
    let ?ns = "map (\<lambda>a. scored_row q tg ents (h ! a)) rows"
    from assms sc have ok: "\<forall>a\<in>set rows. a < length h \<and> scorable (h ! a)" by simp
    from score_items_scorable[OF ok, of q tg ents] r obtain out where
      o: "res = Inr out" "h' = h @ ?ns"
         "out = sort_by_score_desc h' [length h ..< length h + length rows]"
         "deref h' out = sort_key (\<lambda>x. - row_score x) ?ns"
      by auto
    have 1: "length out = length rows" "distinct out"
      "set out = {length h ..< length h + length rows}"
      unfolding o(3) sort_by_score_desc_def by simp_all
    have 2: "\<forall>i<length rows. h' ! (length h + i) =
              ((h ! (rows ! i))(''_score'' \<mapsto> PyFloat (score_of q tg ents (h ! (rows ! i)))))
                (''_tag'' \<mapsto> PyStr tg)"
      unfolding o(2) by (simp add: nth_append scored_row_def scored_copy_def)
    have "set (deref h' out) = (\<lambda>a. scored_row q tg ents (h ! a)) ` set rows"
      unfolding o(4) by simp
    then have 3: "\<forall>x\<in>set (deref h' out). x ''_tag'' = Some (PyStr tg)"
      by (auto simp: scored_row_def scored_copy_tag)
    have same: "h' ! a = h ! a" if "a \<in> set rows" for a
      using that assms frame(2) by simp
    then have ok': "\<forall>a\<in>set rows. a < length h' \<and> scorable (h' ! a)"
      using ok frame(1) by auto
    from score_items_scorable[OF ok', of q tg ents] obtain h'' out2 where
      s: "score_items q tg rows ents h' = (h'', Inr out2)"
         "h'' = h' @ map (\<lambda>a. scored_row q tg ents (h' ! a)) rows"
         "deref h'' out2 =
            sort_key (\<lambda>x. - row_score x) (map (\<lambda>a. scored_row q tg ents (h' ! a)) rows)"
      by blast
    have "map (\<lambda>a. scored_row q tg ents (h' ! a)) rows = ?ns" using same by simp
    with s(3) o(4) have 4: "deref h'' out2 = deref h' out" by simp
    then have 5: "map (score_key h'') out2 = map (score_key h') out"
      by (auto simp: deref_def score_key_def list_eq_iff_nth_eq)
    have 6: "\<forall>a<length h. h'' ! a = h ! a"
      unfolding s(2) o(2) by (simp add: nth_append)
    from o(1) 1 2 3 s(1) 4 5 6 show ?thesis by (intro exI conjI) assumption+
  qed
  from main have "(\<forall>a\<in>set rows. scorable (h ! a)) \<longrightarrow>
        (\<exists>out. res = Inr out \<and> length out = length rows \<and> distinct out \<and>
           set out = {length h ..< length h + length rows} \<and>
           (\<forall>i<length rows. h' ! (length h + i) =
              ((h ! (rows ! i))(''_score'' \<mapsto> PyFloat (score_of q tg ents (h ! (rows ! i)))))
                (''_tag'' \<mapsto> PyStr tg)) \<and>
           (\<forall>x\<in>set (deref h' out). x ''_tag'' = Some (PyStr tg)) \<and>
           (\<exists>h'' out2. score_items q tg rows ents h' = (h'', Inr out2) \<and>
              deref h'' out2 = deref h' out \<and>
              map (score_key h'') out2 = map (score_key h') out \<and>
              (\<forall>a<length h. h'' ! a = h ! a)))"
    by (rule impI)
  with r frame show ?thesis by (intro exI conjI) assumption+
qed

text \<open>
  On the example the three rows of the caller are the objects 0, 1 and 2; the call
  returns the new objects 4, 3, 5 and the store still begins with the caller's rows.
\<close>

theorem score_items_no_mutation_witness:
  "list_all (\<lambda>a. a < length example_store) [0, 1, 2]
   \<and> list_all (\<lambda>a. scorable (example_store ! a)) [0, 1, 2]
   \<and> (\<exists>h' res.
        score_items example_question ''Symptoms'' [0, 1, 2] example_entities example_store
          = (h', res) \<and>
        length example_store \<le> length h' \<and>
        (\<forall>a<length example_store. h' ! a = example_store ! a) \<and>
        ((\<forall>a\<in>set [0, 1, 2]. scorable (example_store ! a)) \<longrightarrow>
           (\<exists>out. res = Inr out \<and> length out = length [0 :: nat, 1, 2] \<and> distinct out \<and>
              set out = {length example_store ..<
                           length example_store + length [0 :: nat, 1, 2]} \<and>
              (\<forall>i<length [0 :: nat, 1, 2]. h' ! (length example_store + i) =
                 ((example_store ! ([0, 1, 2] ! i))
                    (''_score'' \<mapsto> PyFloat (score_of example_question ''Symptoms''
                        example_entities (example_store ! ([0, 1, 2] ! i)))))
                   (''_tag'' \<mapsto> PyStr ''Symptoms'')) \<and>
              (\<forall>x\<in>set (deref h' out). x ''_tag'' = Some (PyStr ''Symptoms'')) \<and>
              (\<exists>h'' out2.
                 score_items example_question ''Symptoms'' [0, 1, 2] example_entities h'
                   = (h'', Inr out2) \<and>
                 deref h'' out2 = deref h' out \<and>
                 map (score_key h'') out2 = map (score_key h') out \<and>
                 (\<forall>a<length example_store. h'' ! a = example_store ! a)))))
   \<and> snd (score_items example_question ''Symptoms'' [0, 1, 2] example_entities example_store)
        = Inr [4, 3, 5]
   \<and> length (fst (score_items example_question ''Symptoms'' [0, 1, 2] example_entities
                    example_store)) = 6"
proof -
  have refs: "\<forall>a\<in>set [0, 1, 2]. a < length example_store"
    by code_simp
  have sc: "\<forall>a\<in>set [0, 1, 2]. scorable (example_store ! a)"
    by code_simp
  from refs have refs': "list_all (\<lambda>a. a < length example_store) [0, 1, 2]"
    by (simp only: list_all_iff)
  from sc have sc': "list_all (\<lambda>a. scorable (example_store ! a)) [0, 1, 2]"
    by (simp only: list_all_iff)
  have run: "snd (score_items example_question ''Symptoms'' [0, 1, 2] example_entities
                    example_store) = Inr [4, 3, 5]"
    by code_simp
  have len: "length (fst (score_items example_question ''Symptoms'' [0, 1, 2] example_entities
                    example_store)) = 6"
    by code_simp
  note concl = score_items_no_mutation
    [OF refs, of example_question "''Symptoms''" example_entities]
  show ?thesis by (rule conjI[OF refs' conjI[OF sc' conjI[OF concl conjI[OF run len]]]])
qed

text \<open>
  A row whose scoring target is a number makes the call raise; the caller's rows are
  left as they were then too.
\<close>

lemma score_items_raises_example:
  "snd (score_items example_question ''Symptoms'' [0, 1] example_entities
          [[''item'' \<mapsto> PyStr ''cough''], [''text'' \<mapsto> PyInt 5]]) = Inl AttributeError"
  by code_simp

section \<open>Properties of the intent classifier\<close>

subsection \<open>Normalization\<close>

lemma of_char_less_256: "(of_char c :: nat) < 256"
proof -
  have "(of_char c :: nat) mod 256 < 256" by (rule mod_less_divisor) simp
  then show ?thesis by simp
qed

lemma lower_char_not_upper: "\<not> is_upper (lower_char c)"
  using of_char_less_256[of c]
  by (auto simp: is_upper_def lower_char_def Let_def)

lemma space_not_upper: "\<not> is_upper (CHR '' '')"
  and space_is_space: "is_space (CHR '' '')"
  by (simp_all add: is_upper_def is_space_def)

lemma set_collapse_ws: "set (collapse_ws s) \<subseteq> insert (CHR '' '') (set s)"
  by (induction s rule: collapse_ws.induct) (auto dest: set_dropWhileD)

lemma set_strip: "set (strip s) \<subseteq> set s"
  by (auto simp: strip_def dest!: set_dropWhileD)

lemma collapse_ws_spaces: "c \<in> set (collapse_ws s) \<Longrightarrow> is_space c \<Longrightarrow> c = CHR '' ''"
  by (induction s rule: collapse_ws.induct) (auto split: if_splits)

lemma collapse_ws_hd:
  "s \<noteq> [] \<Longrightarrow> \<not> is_space (hd s) \<Longrightarrow> collapse_ws s \<noteq> [] \<and> hd (collapse_ws s) = hd s"
  by (cases s) auto

lemma collapse_ws_after_space:
  "\<not> prefix [CHR '' ''] (collapse_ws (dropWhile is_space cs))"
proof (cases "dropWhile is_space cs")
  case Nil
  then show ?thesis by (simp del: dropWhile_eq_Nil_conv)
next
  case (Cons d ds)
  then have "\<not> is_space d" using hd_dropWhile[of is_space cs] by auto
  then show ?thesis using Cons space_is_space by auto
qed

lemma collapse_ws_single: "\<not> sublist [CHR '' '', CHR '' ''] (collapse_ws s)"
proof (induction s rule: collapse_ws.induct)
  case 1
  then show ?case by simp
next
  case (2 c cs)
  show ?case
  proof (cases "is_space c")
    case True
    with 2 collapse_ws_after_space[of cs] show ?thesis
      by (auto simp: sublist_Cons_right)
  next
    case False
    then have "c \<noteq> CHR '' ''" using space_is_space by auto
    with False 2 show ?thesis by (auto simp: sublist_Cons_right)
  qed
qed

lemma collapse_ws_last:
  "s \<noteq> [] \<Longrightarrow> \<not> is_space (last s) \<Longrightarrow> collapse_ws s \<noteq> [] \<and> last (collapse_ws s) = last s"
proof (induction s rule: collapse_ws.induct)
  case 1
  then show ?case by simp
next
  case (2 c cs)
  show ?case
  proof (cases "is_space c")
    case True
    with "2.prems" have cs: "cs \<noteq> []" "\<not> is_space (last cs)" by (auto split: if_splits)
    then have d: "dropWhile is_space cs \<noteq> []" using last_in_set by auto
    then have "last (dropWhile is_space cs) = last cs"
      by (metis last_appendR takeWhile_dropWhile_id)
    with "2.IH"(1)[OF True d] cs True show ?thesis by simp
  next
    case False
    show ?thesis
    proof (cases cs)
      case Nil
      with False show ?thesis by simp
    next
      case (Cons d ds)
      with "2.prems" have "cs \<noteq> []" "\<not> is_space (last cs)" by auto
      with "2.IH"(2)[OF False] False Cons show ?thesis by simp
    qed
  qed
qed

lemma strip_ends:
  "strip s \<noteq> [] \<Longrightarrow> \<not> is_space (hd (strip s)) \<and> \<not> is_space (last (strip s))"
proof -
  assume ne: "strip s \<noteq> []"
  let ?t = "dropWhile is_space s"
  let ?u = "dropWhile is_space (rev ?t)"
  have u: "?u \<noteq> []" using ne by (simp add: strip_def)
  then have 1: "\<not> is_space (hd ?u)" using hd_dropWhile by blast
  from u have t: "?t \<noteq> []" by (metis dropWhile.simps(1) rev.simps(1))
  then have 2: "\<not> is_space (hd ?t)" using hd_dropWhile by blast
  have "last ?u = last (rev ?t)" using u by (metis last_appendR takeWhile_dropWhile_id)
  then have "last ?u = hd ?t" using t by (simp add: last_rev)
  with 1 2 u show ?thesis by (simp add: strip_def hd_rev last_rev)
qed

text \<open>
  The normalized question has the shape the specification names: lower-cased,
  whitespace-collapsed and trimmed.
\<close>

lemma normalize_text_normalized: "is_normalized (normalize_text q)"
proof -
  let ?s = "strip (lower q)"
  have up: "\<forall>c\<in>set (normalize_text q). \<not> is_upper c"
  proof
    fix c assume "c \<in> set (normalize_text q)"
    then have "c = CHR '' '' \<or> c \<in> set (lower q)"
      using set_collapse_ws[of ?s] set_strip[of "lower q"] by (auto simp: normalize_text_def)
    then show "\<not> is_upper c"
      using space_not_upper lower_char_not_upper by (auto simp: lower_def)
  qed
  have sp: "\<forall>c\<in>set (normalize_text q). is_space c \<longrightarrow> c = CHR '' ''"
    using collapse_ws_spaces by (auto simp: normalize_text_def)
  have dbl: "\<not> sublist [CHR '' '', CHR '' ''] (normalize_text q)"
    by (simp add: normalize_text_def collapse_ws_single)
  have ends: "hd (normalize_text q) \<noteq> CHR '' '' \<and> last (normalize_text q) \<noteq> CHR '' ''"
    if "normalize_text q \<noteq> []"
  proof -
    from that have ne: "?s \<noteq> []" by (auto simp: normalize_text_def)
    from strip_ends[OF ne] collapse_ws_hd[OF ne] collapse_ws_last[OF ne]
    show ?thesis using space_is_space by (auto simp: normalize_text_def)
  qed
  from up sp dbl ends show ?thesis unfolding is_normalized_def by blast
qed

subsection \<open>First match wins\<close>

lemma keyword_loop_None:
  "keyword_loop q i kws = None \<longleftrightarrow> (\<forall>kw\<in>set kws. \<not> sublist kw q)"
  by (induction kws) auto

lemma keyword_loop_Some:
  "keyword_loop q i kws = Some j \<Longrightarrow> j = i \<and> (\<exists>kw\<in>set kws. sublist kw q)"
  by (induction kws) (auto split: if_splits)

lemma find_pairs_None:
  "find (\<lambda>(intent, kw). sublist kw q) (map (Pair i) kws) = None
     \<longleftrightarrow> (\<forall>kw\<in>set kws. \<not> sublist kw q)"
  by (induction kws) auto

lemma find_pairs_Some:
  "\<exists>kw\<in>set kws. sublist kw q \<Longrightarrow>
   \<exists>kw. find (\<lambda>(intent, kw). sublist kw q) (map (Pair i) kws) = Some (i, kw)"
  by (induction kws) auto

lemma find_app:
  "find P (xs @ ys) = (case find P xs of None \<Rightarrow> find P ys | Some x \<Rightarrow> Some x)"
  by (induction xs) auto

lemma find_first:
  "\<lbrakk>xs = ps @ x # rest; P x; \<forall>y\<in>set ps. \<not> P y\<rbrakk> \<Longrightarrow> find P xs = Some x"
  by (induction ps arbitrary: xs) auto

lemma find_none: "\<forall>y\<in>set xs. \<not> P y \<Longrightarrow> find P xs = None"
  by (induction xs) auto

text \<open>The two nested loops return what the first matching pair of the flat table says.\<close>

lemma intent_loop_first_match: "intent_loop q table = first_match_intent q table"
proof (induction table)
  case Nil
  then show ?case by (simp add: first_match_intent_def keyword_pairs_def)
next
  case (Cons p table)
  obtain i kws where p: "p = (i, kws)" by (cases p)
  show ?case
  proof (cases "keyword_loop q i kws")
    case None
    then have "find (\<lambda>(intent, kw). sublist kw q) (map (Pair i) kws) = None"
      by (simp add: keyword_loop_None find_pairs_None)
    then show ?thesis using None Cons.IH p
      by (simp add: first_match_intent_def keyword_pairs_def find_app)
  next
    case (Some j)
    from keyword_loop_Some[OF Some] have j: "j = i" and ex: "\<exists>kw\<in>set kws. sublist kw q"
      by auto
    from find_pairs_Some[OF ex, of i] obtain kw where
      "find (\<lambda>(intent, kw). sublist kw q) (map (Pair i) kws) = Some (i, kw)" by blast
    then show ?thesis using Some j p
      by (simp add: first_match_intent_def keyword_pairs_def find_app)
  qed
qed

text \<open>
  C2: for every question, intent detection works on the normalized question, which is
  lower-cased, whitespace-collapsed and trimmed, and goes through the table in its order
  and through the keywords of each intent in list order: the intent of the first keyword
  that is a substring of the normalized question is returned, whatever comes behind it in
  the table, and when no keyword of the table is a substring the intent is \<^verbatim>\<open>generic\<close>.
\<close>

theorem detect_intent_first_keyword:
  "is_normalized (normalize_text question)
   \<and> detect_intent question = first_match_intent (normalize_text question) INTENTS
   \<and> (\<forall>ps intent kw rest.
         keyword_pairs INTENTS = ps @ (intent, kw) # rest
         \<and> sublist kw (normalize_text question)
         \<and> (\<forall>(i, k)\<in>set ps. \<not> sublist k (normalize_text question))
         \<longrightarrow> detect_intent question = intent)
   \<and> ((\<forall>(i, k)\<in>set (keyword_pairs INTENTS). \<not> sublist k (normalize_text question))
         \<longrightarrow> detect_intent question = ''generic'')"
proof (intro conjI allI impI)
  show "is_normalized (normalize_text question)"
    by (rule normalize_text_normalized)
  show 1: "detect_intent question = first_match_intent (normalize_text question) INTENTS"
    by (simp add: detect_intent_def intent_loop_first_match)
  show "detect_intent question = intent"
    if "keyword_pairs INTENTS = ps @ (intent, kw) # rest
         \<and> sublist kw (normalize_text question)
         \<and> (\<forall>(i, k)\<in>set ps. \<not> sublist k (normalize_text question))"
    for ps intent kw rest
  proof -
    have "find (\<lambda>(i, k). sublist k (normalize_text question)) (keyword_pairs INTENTS)
            = Some (intent, kw)"
      using that by (intro find_first[of _ ps _ rest]) auto
    then show ?thesis unfolding 1 by (simp add: first_match_intent_def)
  qed
  show "detect_intent question = ''generic''"
    if "\<forall>(i, k)\<in>set (keyword_pairs INTENTS). \<not> sublist k (normalize_text question)"
  proof -
    have "find (\<lambda>(i, k). sublist k (normalize_text question)) (keyword_pairs INTENTS) = None"
      using that by (intro find_none) auto
    then show ?thesis unfolding 1 by (simp add: first_match_intent_def)
  qed
qed

text \<open>
  The question of scenario B, with upper case and a run of spaces added: the keyword
  \<^verbatim>\<open>accuracy\<close> is the 21st pair of the table and the first that occurs, although
  \<^verbatim>\<open>performance\<close> behind it occurs too. No keyword occurs in the second question.
\<close>

theorem detect_intent_first_keyword_witness:
  "keyword_pairs INTENTS =
      take 20 (keyword_pairs INTENTS) @ (''results'', ''accuracy'') # drop 21 (keyword_pairs INTENTS)
   \<and> sublist ''accuracy''
        (normalize_text ''What ACCURACY and   performance did the random forest model achieve?'')
   \<and> list_all
         (\<lambda>(i, k). \<not> sublist k
             (normalize_text ''What ACCURACY and   performance did the random forest model achieve?''))
         (take 20 (keyword_pairs INTENTS))
   \<and> detect_intent ''What ACCURACY and   performance did the random forest model achieve?''
        = ''results''
   \<and> normalize_text ''What ACCURACY and   performance did the random forest model achieve?''
        = ''what accuracy and performance did the random forest model achieve?''
   \<and> list_all (\<lambda>(i, k). \<not> sublist k (normalize_text ''Who wrote the paper?''))
         (keyword_pairs INTENTS)
   \<and> detect_intent ''Who wrote the paper?'' = ''generic''"
proof -
  let ?q = "''What ACCURACY and   performance did the random forest model achieve?''"
  have split: "keyword_pairs INTENTS =
      take 20 (keyword_pairs INTENTS) @ (''results'', ''accuracy'') # drop 21 (keyword_pairs INTENTS)"
    by code_simp
  have hit: "sublist ''accuracy'' (normalize_text ?q)"
    by code_simp
  have before: "\<forall>(i, k)\<in>set (take 20 (keyword_pairs INTENTS)). \<not> sublist k (normalize_text ?q)"
    by code_simp
  have norm: "normalize_text ?q
        = ''what accuracy and performance did the random forest model achieve?''"
    by code_simp
  have none: "\<forall>(i, k)\<in>set (keyword_pairs INTENTS). \<not> sublist k (normalize_text ''Who wrote the paper?'')"
    by code_simp
  from detect_intent_first_keyword[of ?q] split hit before
  have r1: "detect_intent ?q = ''results''" by blast
  from detect_intent_first_keyword[of "''Who wrote the paper?''"] none
  have r2: "detect_intent ''Who wrote the paper?'' = ''generic''" by blast
  from before have before': "list_all (\<lambda>(i, k). \<not> sublist k (normalize_text ?q))
         (take 20 (keyword_pairs INTENTS))"
    by (simp only: list_all_iff)
  from none have none': "list_all (\<lambda>(i, k). \<not> sublist k (normalize_text ''Who wrote the paper?''))
         (keyword_pairs INTENTS)"
    by (simp only: list_all_iff)
  show ?thesis
    by (rule conjI[OF split conjI[OF hit conjI[OF before' conjI[OF r1 conjI[OF norm conjI[OF none' r2]]]]]])
qed

section \<open>Properties of the query spec builder\<close>

lemma intent_specs_empty_iff: "intent_specs intent = [] \<longleftrightarrow> intent \<notin> set specific_intents"
  by (simp add: intent_specs_def specific_intents_def)

text \<open>
  C3: for every intent value and every question text, \<^verbatim>\<open>build_queries\<close> returns a list
  that is not empty; and whenever the intent is none of the seven specific ones (the
  intent \<^verbatim>\<open>generic\<close> among them), it returns exactly one spec, tagged \<^verbatim>\<open>Sections\<close>,
  whose params bind \<^verbatim>\<open>q\<close> to the question text as it was given.
\<close>

theorem build_queries_never_empty:
  "build_queries intent ents question_text \<noteq> []
   \<and> (intent \<notin> set specific_intents \<longrightarrow>
        length (build_queries intent ents question_text) = 1
        \<and> map tag (build_queries intent ents question_text) = [''Sections'']
        \<and> map params (build_queries intent ents question_text) = [[''q'' \<mapsto> question_text]])"
proof (intro conjI impI)
  show "build_queries intent ents question_text \<noteq> []"
    by (simp add: build_queries_def Let_def)
  assume "intent \<notin> set specific_intents"
  then have "intent_specs intent = []" by (simp add: intent_specs_empty_iff)
  then have fb: "build_queries intent ents question_text = [fallback_spec question_text]"
    by (simp add: build_queries_def)
  show "length (build_queries intent ents question_text) = 1"
    by (simp add: fb)
  show "map tag (build_queries intent ents question_text) = [''Sections'']"
    by (simp add: fb fallback_spec_def)
  show "map params (build_queries intent ents question_text) = [[''q'' \<mapsto> question_text]]"
    by (simp add: fb fallback_spec_def)
qed

text \<open>
  The intent \<^verbatim>\<open>generic\<close> with a question in mixed case and with spaces around it: the
  question is bound as it is.
\<close>

theorem build_queries_never_empty_witness:
  "''generic'' \<notin> set specific_intents
   \<and> build_queries ''generic'' Map.empty ''  Who wrote   the Paper? '' \<noteq> []
   \<and> length (build_queries ''generic'' Map.empty ''  Who wrote   the Paper? '') = 1
   \<and> map tag (build_queries ''generic'' Map.empty ''  Who wrote   the Paper? '') = [''Sections'']
   \<and> map params (build_queries ''generic'' Map.empty ''  Who wrote   the Paper? '')
        = [[''q'' \<mapsto> ''  Who wrote   the Paper? '']]"
proof -
  have hyp: "''generic'' \<notin> set specific_intents"
    by (simp add: specific_intents_def)
  from build_queries_never_empty[of "''generic''" Map.empty "''  Who wrote   the Paper? ''"] hyp
  show ?thesis by blast
qed

text \<open>
  C5: for the intent \<^verbatim>\<open>results\<close> and any entities and question text,
  \<^verbatim>\<open>build_queries\<close> returns exactly two specs, the first tagged \<^verbatim>\<open>Results\<close> and the
  second \<^verbatim>\<open>BestModel\<close>, both with empty params.
\<close>

theorem build_queries_results:
  "length (build_queries ''results'' ents question_text) = 2
   \<and> map tag (build_queries ''results'' ents question_text) = [''Results'', ''BestModel'']
   \<and> map params (build_queries ''results'' ents question_text) = [Map.empty, Map.empty]"
  by (simp add: build_queries_def intent_specs_def)

end
